theory Spec2Isabelle
  imports Main "HOL-Library.AList"
begin

section \<open>JavaScript values used by the trie\<close>

text \<open>
  The clocks of \<^verbatim>\<open>src/lib/persistent/trie.ts\<close> are plain objects from replica
  identifiers to \<^verbatim>\<open>number\<close>. A counter is a double that holds a natural number. The code
  itself can put two other things where a counter belongs:
  \<^item> \<^verbatim>\<open>NaN\<close>, from \<^verbatim>\<open>undefined + 1\<close> and from \<^verbatim>\<open>Math.max\<close> of something that is no number;
  \<^item> a member of \<^verbatim>\<open>Object.prototype\<close>: reading \<^verbatim>\<open>clock[key]\<close> on a plain object that has
    no own property \<^verbatim>\<open>key\<close> finds, for a key such as \<^verbatim>\<open>constructor\<close>, the inherited
    function (for \<^verbatim>\<open>__proto__\<close> the prototype object). \<^verbatim>\<open>+ 1\<close> turns it into a string, its
    text followed by the character 1. \<open>Proto n\<close> is that member after \<open>n\<close> additions.
\<close>

datatype JsNumber = Num nat | NaN | Proto nat

text \<open>
  An object is kept as the list of its own properties in insertion order, a
  \<^verbatim>\<open>Map\<close> as the list of its entries. Objects and maps never hold a key twice;
  \<open>wfClock\<close> and \<open>wfTrie\<close> below say so.
\<close>

type_synonym VectorClock = "(string \<times> JsNumber) list"

text \<open>
  The names of the properties of \<^verbatim>\<open>Object.prototype\<close>, which every plain object inherits
  (ECMAScript, with the legacy accessors of its Annex B).
\<close>

definition objectPrototypeKeys :: "string list" where
  "objectPrototypeKeys =
     [''constructor'', ''__defineGetter__'', ''__defineSetter__'', ''hasOwnProperty'',
      ''__lookupGetter__'', ''__lookupSetter__'', ''isPrototypeOf'', ''propertyIsEnumerable'',
      ''toString'', ''valueOf'', ''__proto__'', ''toLocaleString'']"

text \<open>
  \<^verbatim>\<open>obj[key]\<close> read on a clock: the own property if there is one, else the inherited member
  if the key names one, else \<^verbatim>\<open>undefined\<close>.
\<close>

definition getProp :: "VectorClock \<Rightarrow> string \<Rightarrow> JsNumber option" where
  "getProp obj key =
     (case map_of obj key of
        Some v \<Rightarrow> Some v
      | None \<Rightarrow> if key \<in> set objectPrototypeKeys then Some (Proto 0) else None)"

text \<open>
  \<^verbatim>\<open>obj[key] = v\<close> on a plain object: an own property is overwritten in place, a new one
  goes last. The one key that makes no own property is \<^verbatim>\<open>__proto__\<close> when the object has
  none yet: the assignment then runs the inherited setter, which changes the prototype
  when \<open>v\<close> is an object and does nothing otherwise.
\<close>

definition assignProp :: "string \<Rightarrow> 'v \<Rightarrow> (string \<times> 'v) list \<Rightarrow> (string \<times> 'v) list" where
  "assignProp key v obj =
     (if key = ''__proto__'' \<and> map_of obj key = None then obj else AList.update key v obj)"

text \<open>
  \<^verbatim>\<open>x || 0\<close>: \<^verbatim>\<open>undefined\<close>, \<^verbatim>\<open>NaN\<close> and \<^verbatim>\<open>0\<close> are falsy; a function, an object and a
  non-empty string are truthy.
\<close>

fun orZero :: "JsNumber option \<Rightarrow> JsNumber" where
  "orZero None = Num 0"
| "orZero (Some NaN) = Num 0"
| "orZero (Some (Num n)) = Num n"
| "orZero (Some (Proto n)) = Proto n"

text \<open>
  \<^verbatim>\<open>x > y\<close> and \<^verbatim>\<open>x < y\<close>. Numbers compare as numbers and every comparison with
  \<^verbatim>\<open>NaN\<close> is false. A member of \<^verbatim>\<open>Object.prototype\<close> is compared through its text: against
  a number the text converts to \<^verbatim>\<open>NaN\<close>; two of them, read under the same key, are the
  same text followed by \<open>m\<close> and by \<open>n\<close> characters 1, and compare as strings.
\<close>

fun jsGreater :: "JsNumber \<Rightarrow> JsNumber \<Rightarrow> bool" where
  "jsGreater (Num m) (Num n) = (m > n)"
| "jsGreater (Proto m) (Proto n) = (m > n)"
| "jsGreater _ _ = False"

fun jsLess :: "JsNumber \<Rightarrow> JsNumber \<Rightarrow> bool" where
  "jsLess (Num m) (Num n) = (m < n)"
| "jsLess (Proto m) (Proto n) = (m < n)"
| "jsLess _ _ = False"

text \<open>\<^verbatim>\<open>Math.max(x, y)\<close>: \<^verbatim>\<open>NaN\<close> as soon as one argument is no number.\<close>

fun mathMax :: "JsNumber \<Rightarrow> JsNumber \<Rightarrow> JsNumber" where
  "mathMax (Num m) (Num n) = Num (max m n)"
| "mathMax _ _ = NaN"

text \<open>
  \<^verbatim>\<open>clock[id] + 1\<close>. On a counter the sum is rounded to a double: exact below \<open>2^53\<close>; from
  there to \<open>2^54\<close> the doubles are the even numbers and a tie goes to the one with the even
  significand; beyond, \<open>n + 1\<close> rounds back to \<open>n\<close>. A missing property reads
  \<^verbatim>\<open>undefined\<close>, and \<^verbatim>\<open>undefined + 1\<close> is \<^verbatim>\<open>NaN\<close>. On a function, an object or a string,
  \<^verbatim>\<open>+\<close> appends the character 1.
\<close>

fun plusOne :: "JsNumber option \<Rightarrow> JsNumber" where
  "plusOne (Some (Num n)) =
     Num (if n < 9007199254740992 then n + 1
          else if n < 18014398509481984 \<and> odd (n div 2) then n + 2
          else n)"
| "plusOne (Some (Proto n)) = Proto (n + 1)"
| "plusOne (Some NaN) = NaN"
| "plusOne None = NaN"

text \<open>The payload type \<^verbatim>\<open>any\<close>: scalars, sequences and keyed records.\<close>

datatype JsValue = Undefined | Null | Boolean bool | Number int | String string
  | Array "JsValue list" | Object "(string \<times> JsValue) list"


section \<open>Vector clocks\<close>

text \<open>
  \<^verbatim>\<open>
  export const happensBefore = (a: VectorClock, b: VectorClock): boolean => {
      let hasStrictlyLess = false;
      for (const nodeId in b) {
          const aVersion = a[nodeId] || 0;
          const bVersion = b[nodeId];
          if (aVersion > bVersion) return false;
          if (aVersion < bVersion) hasStrictlyLess = true;
      }
      return hasStrictlyLess;
  };
  \<close>
  The loop runs over the properties of \<open>b\<close> only.
\<close>

fun happensBeforeLoop :: "VectorClock \<Rightarrow> VectorClock \<Rightarrow> bool \<Rightarrow> bool" where
  "happensBeforeLoop a [] hasStrictlyLess = hasStrictlyLess"
| "happensBeforeLoop a ((nodeId, bVersion) # rest) hasStrictlyLess =
     (let aVersion = orZero (getProp a nodeId) in
      if jsGreater aVersion bVersion then False
      else happensBeforeLoop a rest (if jsLess aVersion bVersion then True else hasStrictlyLess))"

definition happensBefore :: "VectorClock \<Rightarrow> VectorClock \<Rightarrow> bool" where
  "happensBefore a b = happensBeforeLoop a b False"

text \<open>
  \<^verbatim>\<open>
  const mergeClocks = (a: VectorClock, b: VectorClock): VectorClock => {
      const result = { ...a };
      for (const nodeId in b) {
          result[nodeId] = Math.max(result[nodeId] || 0, b[nodeId]);
      }
      return result;
  };
  \<close>
\<close>

fun mergeClocksLoop :: "VectorClock \<Rightarrow> VectorClock \<Rightarrow> VectorClock" where
  "mergeClocksLoop result [] = result"
| "mergeClocksLoop result ((nodeId, bVersion) # rest) =
     mergeClocksLoop
       (assignProp nodeId (mathMax (orZero (getProp result nodeId)) bVersion) result) rest"

definition mergeClocks :: "VectorClock \<Rightarrow> VectorClock \<Rightarrow> VectorClock" where
  "mergeClocks a b = mergeClocksLoop a b"

text \<open>
  A clock in the sense of the data model: no replica twice, every counter a natural number.
  \<open>safeKeys\<close> says that no replica is named like a member of \<^verbatim>\<open>Object.prototype\<close>.
  \<open>entry c k\<close> is the counter of \<open>k\<close> with a missing key read as 0, \<open>clockKeys\<close> the
  replicas a clock mentions.
\<close>

definition wfClock :: "VectorClock \<Rightarrow> bool" where
  "wfClock c =
     (distinct (map fst c)
      \<and> list_all (\<lambda>kv. case snd kv of Num n \<Rightarrow> True | NaN \<Rightarrow> False | Proto n \<Rightarrow> False) c)"

definition safeKeys :: "VectorClock \<Rightarrow> bool" where
  "safeKeys c = list_all (\<lambda>kv. fst kv \<notin> set objectPrototypeKeys) c"

definition entry :: "VectorClock \<Rightarrow> string \<Rightarrow> nat" where
  "entry c k = (case map_of c k of Some (Num n) \<Rightarrow> n | _ \<Rightarrow> 0)"

definition clockKeys :: "VectorClock \<Rightarrow> string set" where
  "clockKeys c = set (map fst c)"

text \<open>
  The relation the specification calls \<open>Before\<close>, written from its words: over the keys of
  either clock, every entry of \<open>a\<close> is at most that of \<open>b\<close>, and one is strictly less.
\<close>

definition specBefore :: "VectorClock \<Rightarrow> VectorClock \<Rightarrow> bool" where
  "specBefore a b =
     (list_all (\<lambda>k. entry a k \<le> entry b k) (map fst a @ map fst b) \<and>
      list_ex (\<lambda>k. entry a k < entry b k) (map fst a @ map fst b))"


section \<open>Trie nodes and containers\<close>

text \<open>
  \<^verbatim>\<open>
  export type NodeType =
      | { type: 'value'; value: any; version: VectorClock }
      | { type: 'branch'; children: Map<string, TrieNode> };
  export type TrieNode = { nodeType: NodeType; isLeaf: boolean; };
  export type Container = { root: Trie; id: string; version: VectorClock; };
  \<close>
  A node carries its \<^verbatim>\<open>isLeaf\<close> flag as the last argument of its constructor. The field
  \<^verbatim>\<open>id\<close> of a container is \<open>cid\<close> here.
\<close>

datatype TrieNode =
    ValueNode JsValue VectorClock bool
  | BranchNode "(string \<times> TrieNode) list" bool

record Container =
  root :: TrieNode
  cid :: string
  version :: VectorClock

definition emptyTrie :: TrieNode where
  "emptyTrie = BranchNode [] False"

definition createContainer :: "string \<Rightarrow> Container" where
  "createContainer i = \<lparr> root = emptyTrie, cid = i, version = [(i, Num 0)] \<rparr>"

text \<open>
  \<^verbatim>\<open>
  export const get = (path: string[], trie: Trie): Trie | undefined => {
      let node = trie;
      for (const key of path) {
          if (node.nodeType.type !== 'branch') { return undefined; }
          const next = node.nodeType.children.get(key);
          if (!next) return undefined;
          node = next;
      }
      return node;
  };
  \<close>
\<close>

fun get :: "string list \<Rightarrow> TrieNode \<Rightarrow> TrieNode option" where
  "get [] node = Some node"
| "get (key # rest) (ValueNode v ver leaf) = None"
| "get (key # rest) (BranchNode children leaf) =
     (case map_of children key of
        None \<Rightarrow> None
      | Some next \<Rightarrow> get rest next)"

text \<open>
  \<^verbatim>\<open>
  const setInTrie = (path: string[], value: any, version: VectorClock, trie: Trie): Trie => {
      if (path.length === 0) {
          return { nodeType: { type: 'value', value, version }, isLeaf: true };
      }
      const [key, ...rest] = path;
      if (trie.nodeType.type !== 'branch') {
          throw new Error('Cannot set path on value node');
      }
      const children = new Map(trie.nodeType.children);
      const child = children.get(key) || empty();
      children.set(key, setInTrie(rest, value, version, child));
      return { nodeType: { type: 'branch', children }, isLeaf: false };
  };
  \<close>
  The \<^verbatim>\<open>throw\<close> is the left summand of the result.
\<close>

datatype error = CannotSetPathOnValueNode

fun setInTrie :: "string list \<Rightarrow> JsValue \<Rightarrow> VectorClock \<Rightarrow> TrieNode \<Rightarrow> error + TrieNode" where
  "setInTrie [] val ver trie = Inr (ValueNode val ver True)"
| "setInTrie (key # rest) val ver (ValueNode v0 ver0 leaf) = Inl CannotSetPathOnValueNode"
| "setInTrie (key # rest) val ver (BranchNode children leaf) =
     (let child = (case map_of children key of Some c \<Rightarrow> c | None \<Rightarrow> emptyTrie) in
      case setInTrie rest val ver child of
        Inl e \<Rightarrow> Inl e
      | Inr n \<Rightarrow> Inr (BranchNode (AList.update key n children) False))"

text \<open>
  \<^verbatim>\<open>
  export const set = (path: string[], value: any, container: Container): Container => {
      const newVersion = {
          ...container.version,
          [container.id]: container.version[container.id] + 1
      };
      return { ...container, root: setInTrie(path, value, newVersion, container.root),
               version: newVersion };
  };
  \<close>
  The object literal defines its properties as own properties whatever their names
  (a computed key never sets the prototype), so the new clock is \<^const>\<open>AList.update\<close> of
  the old one. Every write of the source goes to an object or map it has just created (the
  spread copies, \<^verbatim>\<open>new Map(...)\<close>), so the operations are functions from values to values
  and the arguments are the same after the call as before.
\<close>

definition set_container :: "string list \<Rightarrow> JsValue \<Rightarrow> Container \<Rightarrow> error + Container" where
  "set_container path val container =
     (let newVersion = AList.update (cid container)
                         (plusOne (getProp (version container) (cid container)))
                         (version container) in
      case setInTrie path val newVersion (root container) of
        Inl e \<Rightarrow> Inl e
      | Inr r \<Rightarrow> Inr (container\<lparr> root := r, version := newVersion \<rparr>))"

text \<open>
  \<^verbatim>\<open>
  const mergeTries = (a: Trie, b: Trie): Trie => {
      if (!a) return b;
      if (!b) return a;
      if (a.nodeType.type === 'value' && b.nodeType.type === 'value') {
          return happensBefore(a.nodeType.version, b.nodeType.version) ? b : a;
      }
      if (a.nodeType.type === 'branch' && b.nodeType.type === 'branch') {
          const children = new Map(a.nodeType.children);
          for (const [key, bChild] of b.nodeType.children) {
              const aChild = children.get(key);
              children.set(key, aChild ? mergeTries(aChild, bChild) : bChild);
          }
          return { nodeType: { type: 'branch', children }, isLeaf: false };
      }
      return b;
  };
  \<close>
  \<open>mergeTries\<close> is the body on two nodes, \<open>mergeChildren\<close> its loop with the map
  \<^verbatim>\<open>children\<close> as accumulator, and \<open>mergeTriesU\<close> adds the two guards for a missing argument.
\<close>

function mergeTries :: "TrieNode \<Rightarrow> TrieNode \<Rightarrow> TrieNode"
  and mergeChildren ::
    "(string \<times> TrieNode) list \<Rightarrow> (string \<times> TrieNode) list \<Rightarrow> (string \<times> TrieNode) list"
where
  "mergeTries (ValueNode va vera la) (ValueNode vb verb lb) =
     (if happensBefore vera verb then ValueNode vb verb lb else ValueNode va vera la)"
| "mergeTries (BranchNode as la) (BranchNode bs lb) = BranchNode (mergeChildren as bs) False"
| "mergeTries (ValueNode va vera la) (BranchNode bs lb) = BranchNode bs lb"
| "mergeTries (BranchNode as la) (ValueNode vb verb lb) = ValueNode vb verb lb"
| "mergeChildren children [] = children"
| "mergeChildren children ((key, bChild) # rest) =
     mergeChildren
       (AList.update key
          (case map_of children key of
             Some aChild \<Rightarrow> mergeTries aChild bChild
           | None \<Rightarrow> bChild)
          children)
       rest"
  by pat_completeness auto
termination
  by (relation "measure (\<lambda>x. case x of Inl (a, b) \<Rightarrow> size b
                                  | Inr (cs, bs) \<Rightarrow> size_list (size_prod (\<lambda>_. 0) size) bs)")
     auto

definition mergeTriesU :: "TrieNode option \<Rightarrow> TrieNode option \<Rightarrow> TrieNode option" where
  "mergeTriesU a b =
     (case a of None \<Rightarrow> b
      | Some a' \<Rightarrow> (case b of None \<Rightarrow> a | Some b' \<Rightarrow> Some (mergeTries a' b')))"

text \<open>
  \<^verbatim>\<open>
  export const merge = (a: Container, b: Container): Container => {
      if (a.id === b.id) {
          return happensBefore(a.version, b.version) ? b : a;
      }
      const newVersion = mergeClocks(a.version, b.version);
      return { id: a.id, root: mergeTries(a.root, b.root), version: newVersion };
  };
  \<close>
\<close>

definition merge :: "Container \<Rightarrow> Container \<Rightarrow> Container" where
  "merge a b =
     (if cid a = cid b then (if happensBefore (version a) (version b) then b else a)
      else \<lparr> root = mergeTries (root a) (root b),
             cid = cid a,
             version = mergeClocks (version a) (version b) \<rparr>)"

text \<open>
  \<^verbatim>\<open>
  export const toValue = (trie: Trie | undefined): any => {
      if (!trie) return undefined;
      const { nodeType } = trie;
      switch (nodeType.type) {
          case 'value': return nodeType.value;
          case 'branch': {
              const result: { [key: string]: any } = {};
              nodeType.children.forEach((child, key) => {
                  const value = toValue(child);
                  if (value !== undefined) { result[key] = value; }
              });
              return Object.keys(result).length > 0 ? result : undefined;
          }
      }
  };
  \<close>
\<close>

fun toValueNode :: "TrieNode \<Rightarrow> JsValue"
  and toValueChildren ::
    "(string \<times> TrieNode) list \<Rightarrow> (string \<times> JsValue) list \<Rightarrow> (string \<times> JsValue) list"
where
  "toValueNode (ValueNode v ver leaf) = v"
| "toValueNode (BranchNode children leaf) =
     (let result = toValueChildren children [] in
      if length result > 0 then Object result else Undefined)"
| "toValueChildren [] result = result"
| "toValueChildren ((key, child) # rest) result =
     (let val = toValueNode child in
      toValueChildren rest (if val \<noteq> Undefined then assignProp key val result else result))"

definition toValue :: "TrieNode option \<Rightarrow> JsValue" where
  "toValue trie = (case trie of None \<Rightarrow> Undefined | Some t \<Rightarrow> toValueNode t)"


section \<open>Operations the tests use that \<^verbatim>\<open>trie.ts\<close> does not define\<close>

text \<open>
  Modelled from the spec: \<^verbatim>\<open>has\<close> is imported by the test of the trie but is not defined in
  \<^verbatim>\<open>src/lib/persistent/trie.ts\<close>. The specification: "true iff \<^verbatim>\<open>get\<close> resolves to any
  leaf or branch (presence, independent of value)".
\<close>

definition has :: "string list \<Rightarrow> TrieNode \<Rightarrow> bool" where
  "has path node = (get path node \<noteq> None)"

text \<open>
  Modelled from the spec: \<^verbatim>\<open>removeValue\<close> is imported by the test of the trie but is not
  defined in \<^verbatim>\<open>src/lib/persistent/trie.ts\<close>. The specification: it "clears the leaf at
  \<^verbatim>\<open>path\<close> to no value but retains the branch structure at and below that path
  (tombstone semantics): siblings and the parent branch remain addressable,
  \<^verbatim>\<open>get(path)\<close> returns a present-but-valueless node, \<^verbatim>\<open>toValue\<close> omits it from
  reconstructed compound output". The leaf stays where it is with the payload
  \<^verbatim>\<open>undefined\<close>; a branch at the path, and a path that does not resolve, leave the tree as
  it is (the specification names no other effect).
\<close>

fun removeValue :: "string list \<Rightarrow> TrieNode \<Rightarrow> TrieNode" where
  "removeValue [] (ValueNode v ver leaf) = ValueNode Undefined ver leaf"
| "removeValue [] (BranchNode children leaf) = BranchNode children leaf"
| "removeValue (key # rest) (ValueNode v ver leaf) = ValueNode v ver leaf"
| "removeValue (key # rest) (BranchNode children leaf) =
     (case map_of children key of
        None \<Rightarrow> BranchNode children leaf
      | Some child \<Rightarrow> BranchNode (AList.update key (removeValue rest child) children) leaf)"

text \<open>
  Modelled from the spec: \<^verbatim>\<open>removePath\<close> is imported by the test of the trie but is not
  defined in \<^verbatim>\<open>src/lib/persistent/trie.ts\<close>. The specification: it "removes the leaf and
  prunes every ancestor Branch that becomes empty as a result, recursively up to the root;
  if the entire tree becomes empty, returns the canonical empty tree". \<open>removePathAux\<close>
  returns \<open>None\<close> when the node it was given disappears.
\<close>

fun removePathAux :: "string list \<Rightarrow> TrieNode \<Rightarrow> TrieNode option" where
  "removePathAux [] node = None"
| "removePathAux (key # rest) (ValueNode v ver leaf) = Some (ValueNode v ver leaf)"
| "removePathAux (key # rest) (BranchNode children leaf) =
     (case map_of children key of
        None \<Rightarrow> Some (BranchNode children leaf)
      | Some child \<Rightarrow>
          (case removePathAux rest child of
             Some child' \<Rightarrow> Some (BranchNode (AList.update key child' children) leaf)
           | None \<Rightarrow>
               (let children' = AList.delete key children in
                if children' = [] then None else Some (BranchNode children' leaf))))"

definition removePath :: "string list \<Rightarrow> TrieNode \<Rightarrow> TrieNode" where
  "removePath path node = (case removePathAux path node of None \<Rightarrow> emptyTrie | Some n \<Rightarrow> n)"


section \<open>Trees as maps, and what a path finds\<close>

text \<open>
  A \<^verbatim>\<open>Map\<close> holds a key once: \<open>wfTrie\<close> says so for the entry lists of every branch.
\<close>

fun wfTrie :: "TrieNode \<Rightarrow> bool" where
  "wfTrie (ValueNode v ver leaf) = True"
| "wfTrie (BranchNode children leaf) =
     (distinct (map fst children) \<and> list_all (\<lambda>kc. wfTrie (snd kc)) children)"

text \<open>
  What \<open>get\<close> finds at a path, without the contents of a branch: nothing, a leaf with its
  payload, version and flag, or a branch with its flag.
\<close>

datatype Found = Absent | Leaf JsValue VectorClock bool | Inner bool

definition found :: "string list \<Rightarrow> TrieNode \<Rightarrow> Found" where
  "found path trie =
     (case get path trie of
        None \<Rightarrow> Absent
      | Some (ValueNode v ver leaf) \<Rightarrow> Leaf v ver leaf
      | Some (BranchNode children leaf) \<Rightarrow> Inner leaf)"

text \<open>
  Two versions are causally ordered when both are clocks of the data model, no replica in
  them is named like a member of \<^verbatim>\<open>Object.prototype\<close>, and one is \<open>Before\<close> the other in
  the sense of the specification.
\<close>

definition causallyOrdered :: "VectorClock \<Rightarrow> VectorClock \<Rightarrow> bool" where
  "causallyOrdered va vb =
     (wfClock va \<and> wfClock vb \<and> safeKeys va \<and> safeKeys vb
      \<and> (specBefore va vb \<or> specBefore vb va))"

text \<open>
  A path is free of conflict between two trees when, walking it in both at once, one never
  stands on a leaf in one tree and on a branch in the other, and two leaves at its end are
  the same leaf or have causally ordered versions. Where one tree has no child for the
  next key, the rest of the path lies in the other tree alone; where both trees have a leaf
  before the end of the path, the path resolves in neither.
\<close>

fun conflictFree :: "string list \<Rightarrow> TrieNode \<Rightarrow> TrieNode \<Rightarrow> bool" where
  "conflictFree [] (ValueNode va vera la) (ValueNode vb verb lb) =
     ((va = vb \<and> vera = verb \<and> la = lb) \<or> causallyOrdered vera verb)"
| "conflictFree (key # rest) (ValueNode va vera la) (ValueNode vb verb lb) = True"
| "conflictFree path (ValueNode va vera la) (BranchNode bs lb) = False"
| "conflictFree path (BranchNode as la) (ValueNode vb verb lb) = False"
| "conflictFree [] (BranchNode as la) (BranchNode bs lb) = True"
| "conflictFree (key # rest) (BranchNode as la) (BranchNode bs lb) =
     (case map_of as key of
        None \<Rightarrow> True
      | Some a \<Rightarrow> (case map_of bs key of None \<Rightarrow> True | Some b \<Rightarrow> conflictFree rest a b))"


section \<open>Facts about property reads and writes\<close>

lemma proto_in_objectPrototypeKeys: "''__proto__'' \<in> set objectPrototypeKeys"
  by (simp add: objectPrototypeKeys_def)

lemma getProp_safe: "k \<notin> set objectPrototypeKeys \<Longrightarrow> getProp obj k = map_of obj k"
  by (cases "map_of obj k") (simp_all add: getProp_def)

lemma getProp_own: "map_of obj k = Some v \<Longrightarrow> getProp obj k = Some v"
  by (simp add: getProp_def)

lemma assignProp_safe: "k \<notin> set objectPrototypeKeys \<Longrightarrow> assignProp k v obj = AList.update k v obj"
  using proto_in_objectPrototypeKeys by (auto simp: assignProp_def)

lemma assignProp_own: "map_of obj k = Some v0 \<Longrightarrow> assignProp k v obj = AList.update k v obj"
  by (simp add: assignProp_def)

lemma map_of_assignProp_other: "k \<noteq> k' \<Longrightarrow> map_of (assignProp k' v obj) k = map_of obj k"
  by (simp add: assignProp_def update_conv')

lemma keys_assignProp: "fst ` set (assignProp k v obj) \<subseteq> insert k (fst ` set obj)"
  by (auto simp: assignProp_def dom_update)

lemma distinct_assignProp: "distinct (map fst obj) \<Longrightarrow> distinct (map fst (assignProp k v obj))"
  by (simp add: assignProp_def distinct_update)

section \<open>Facts about clocks\<close>

lemma map_of_None_clockKeys: "map_of c k = None \<longleftrightarrow> k \<notin> clockKeys c"
  by (simp add: clockKeys_def map_of_eq_None_iff)

lemma entry_absent: "k \<notin> clockKeys c \<Longrightarrow> entry c k = 0"
  by (simp add: entry_def map_of_None_clockKeys[symmetric])

lemma entry_Num: "map_of c k = Some (Num n) \<Longrightarrow> entry c k = n"
  by (simp add: entry_def)

lemma wfClock_Some: "wfClock c \<Longrightarrow> map_of c k = Some v \<Longrightarrow> \<exists>n. v = Num n"
proof -
  assume w: "wfClock c" and m: "map_of c k = Some v"
  from m have "(k, v) \<in> set c" by (rule map_of_SomeD)
  with w have "case v of Num n \<Rightarrow> True | NaN \<Rightarrow> False | Proto n \<Rightarrow> False"
    by (auto simp: wfClock_def list_all_iff)
  then show ?thesis by (cases v) auto
qed

lemma safeKeys_notin: "safeKeys c \<Longrightarrow> kv \<in> set c \<Longrightarrow> fst kv \<notin> set objectPrototypeKeys"
  by (simp add: safeKeys_def list_all_iff)

lemma safeKeys_clockKeys: "safeKeys c \<Longrightarrow> k \<in> set objectPrototypeKeys \<Longrightarrow> k \<notin> clockKeys c"
  by (auto simp: safeKeys_def list_all_iff clockKeys_def)

lemma orZero_entry: "wfClock a \<Longrightarrow> orZero (map_of a k) = Num (entry a k)"
proof (cases "map_of a k")
  case None
  then show ?thesis by (simp add: entry_def)
next
  case (Some v)
  assume "wfClock a"
  from wfClock_Some[OF this Some] obtain n where "v = Num n" ..
  with Some show ?thesis by (simp add: entry_def)
qed

lemma wfClock_entry: "wfClock b \<Longrightarrow> kv \<in> set b \<Longrightarrow> snd kv = Num (entry b (fst kv))"
proof -
  assume w: "wfClock b" and m: "kv \<in> set b"
  from w m have s: "map_of b (fst kv) = Some (snd kv)" by (cases kv) (simp add: wfClock_def)
  then obtain n where "snd kv = Num n" using wfClock_Some[OF w] by blast
  with s show ?thesis by (simp add: entry_Num)
qed

subsection \<open>What the loop of \<open>happensBefore\<close> computes\<close>

lemma happensBeforeLoop_iff:
  "happensBeforeLoop a b h =
     (list_all (\<lambda>kv. \<not> jsGreater (orZero (getProp a (fst kv))) (snd kv)) b \<and>
      (h \<or> list_ex (\<lambda>kv. jsLess (orZero (getProp a (fst kv))) (snd kv)) b))"
proof (induction b arbitrary: h)
  case Nil
  then show ?case by simp
next
  case (Cons kv b)
  obtain k v where kv: "kv = (k, v)" by (cases kv)
  show ?case unfolding kv by (simp add: Cons.IH Let_def)
qed

text \<open>
  Only the keys of \<open>b\<close> are looked at. (When a key of \<open>b\<close> names a member of
  \<^verbatim>\<open>Object.prototype\<close> and \<open>a\<close> lacks it, the read on \<open>a\<close> finds that member and both
  comparisons are false; \<open>safeKeys b\<close> keeps such keys out.)
\<close>

lemma happensBefore_iff:
  assumes a: "wfClock a" and b: "wfClock b" and sb: "safeKeys b"
  shows "happensBefore a b \<longleftrightarrow>
     (\<forall>k \<in> clockKeys b. entry a k \<le> entry b k) \<and> (\<exists>k \<in> clockKeys b. entry a k < entry b k)"
proof -
  have r: "orZero (getProp a (fst kv)) = Num (entry a (fst kv))" if "kv \<in> set b" for kv
    using safeKeys_notin[OF sb that] by (simp add: getProp_safe orZero_entry[OF a])
  have g: "jsGreater (orZero (getProp a (fst kv))) (snd kv) \<longleftrightarrow> entry a (fst kv) > entry b (fst kv)"
    and l: "jsLess (orZero (getProp a (fst kv))) (snd kv) \<longleftrightarrow> entry a (fst kv) < entry b (fst kv)"
    if "kv \<in> set b" for kv
    using wfClock_entry[OF b that] r[OF that] by simp_all
  have 1: "list_all (\<lambda>kv. \<not> jsGreater (orZero (getProp a (fst kv))) (snd kv)) b
           \<longleftrightarrow> (\<forall>k \<in> clockKeys b. entry a k \<le> entry b k)"
    unfolding list_all_iff clockKeys_def using g by (auto simp: not_less)
  have 2: "list_ex (\<lambda>kv. jsLess (orZero (getProp a (fst kv))) (snd kv)) b
           \<longleftrightarrow> (\<exists>k \<in> clockKeys b. entry a k < entry b k)"
    unfolding list_ex_iff clockKeys_def using l by auto
  show ?thesis
    unfolding happensBefore_def happensBeforeLoop_iff 1 2 by simp
qed

lemma specBefore_iff:
  "specBefore a b \<longleftrightarrow>
     (\<forall>k \<in> clockKeys a \<union> clockKeys b. entry a k \<le> entry b k) \<and>
     (\<exists>k \<in> clockKeys a \<union> clockKeys b. entry a k < entry b k)"
  by (auto simp: specBefore_def list_all_iff list_ex_iff clockKeys_def)

text \<open>
  The code answers \<open>true\<close> whenever the specification's relation holds, and the two agree
  as soon as \<open>b\<close> mentions every replica that \<open>a\<close> mentions.
\<close>

lemma specBefore_imp_happensBefore:
  assumes a: "wfClock a" and b: "wfClock b" and sb: "safeKeys b" and s: "specBefore a b"
  shows "happensBefore a b"
proof -
  from s obtain k where k: "entry a k < entry b k" by (auto simp: specBefore_iff)
  then have "k \<in> clockKeys b" using entry_absent[of k b] by (cases "k \<in> clockKeys b") auto
  with k s show ?thesis unfolding happensBefore_iff[OF a b sb] specBefore_iff by blast
qed

lemma happensBefore_eq_specBefore:
  assumes a: "wfClock a" and b: "wfClock b" and sb: "safeKeys b"
    and sub: "clockKeys a \<subseteq> clockKeys b"
  shows "happensBefore a b = specBefore a b"
proof -
  from sub have "clockKeys a \<union> clockKeys b = clockKeys b" by auto
  then show ?thesis unfolding happensBefore_iff[OF a b sb] specBefore_iff by simp
qed

text \<open>
  When \<open>a\<close> is \<open>Before\<close> \<open>b\<close>, the code does not order them the other way round, so on
  causally ordered versions \<open>happensBefore\<close> holds in exactly one direction.
\<close>

lemma specBefore_not_happensBefore_back:
  assumes a: "wfClock a" and b: "wfClock b" and sa: "safeKeys a" and s: "specBefore a b"
  shows "\<not> happensBefore b a"
proof
  assume "happensBefore b a"
  then obtain k where "k \<in> clockKeys a" and "entry b k < entry a k"
    unfolding happensBefore_iff[OF b a sa] by blast
  moreover from s \<open>k \<in> clockKeys a\<close> have "entry a k \<le> entry b k"
    unfolding specBefore_iff by blast
  ultimately show False by simp
qed

lemma causallyOrdered_picks_later:
  assumes "causallyOrdered va vb"
  shows "(happensBefore va vb \<and> \<not> happensBefore vb va)
       \<or> (happensBefore vb va \<and> \<not> happensBefore va vb)"
proof -
  from assms have a: "wfClock va" and b: "wfClock vb" and sa: "safeKeys va" and sb: "safeKeys vb"
    and s: "specBefore va vb \<or> specBefore vb va"
    by (simp_all add: causallyOrdered_def)
  from s show ?thesis
  proof
    assume "specBefore va vb"
    then show ?thesis
      using specBefore_imp_happensBefore[OF a b sb] specBefore_not_happensBefore_back[OF a b sa]
      by blast
  next
    assume "specBefore vb va"
    then show ?thesis
      using specBefore_imp_happensBefore[OF b a sa] specBefore_not_happensBefore_back[OF b a sb]
      by blast
  qed
qed


subsection \<open>What the loop of \<open>mergeClocks\<close> computes\<close>

text \<open>At a key that names no member of \<^verbatim>\<open>Object.prototype\<close>, whatever the other keys are.\<close>

lemma map_of_mergeClocksLoop:
  "distinct (map fst b) \<Longrightarrow> k \<notin> set objectPrototypeKeys \<Longrightarrow>
   map_of (mergeClocksLoop r b) k =
     (case map_of b k of None \<Rightarrow> map_of r k
      | Some bv \<Rightarrow> Some (mathMax (orZero (map_of r k)) bv))"
proof (induction b arbitrary: r)
  case Nil
  then show ?case by simp
next
  case (Cons kv b)
  obtain k' v' where kv: "kv = (k', v')" by (cases kv)
  from Cons.prems(1) kv have d: "distinct (map fst b)" and nk: "k' \<notin> fst ` set b" by auto
  from nk have none: "map_of b k' = None" by (simp add: map_of_eq_None_iff)
  let ?r' = "assignProp k' (mathMax (orZero (getProp r k')) v') r"
  have step: "mergeClocksLoop r (kv # b) = mergeClocksLoop ?r' b" by (simp add: kv)
  note ih = Cons.IH[OF d Cons.prems(2), of ?r']
  show ?case
  proof (cases "k = k'")
    case True
    with Cons.prems(2) have "map_of ?r' k = Some (mathMax (orZero (map_of r k)) v')"
      by (simp add: assignProp_safe getProp_safe update_conv')
    with True none show ?thesis unfolding step ih by (simp add: kv)
  next
    case False
    then have "map_of ?r' k = map_of r k" by (rule map_of_assignProp_other)
    with False show ?thesis unfolding step ih by (simp add: kv cong: option.case_cong)
  qed
qed

lemma keys_mergeClocksLoop:
  "fst ` set (mergeClocksLoop r b) \<subseteq> fst ` set r \<union> fst ` set b"
proof (induction b arbitrary: r)
  case Nil
  then show ?case by simp
next
  case (Cons kv b)
  obtain k' v' where kv: "kv = (k', v')" by (cases kv)
  let ?r' = "assignProp k' (mathMax (orZero (getProp r k')) v') r"
  have "fst ` set (mergeClocksLoop ?r' b) \<subseteq> fst ` set ?r' \<union> fst ` set b" by (rule Cons.IH)
  moreover have "fst ` set ?r' \<subseteq> insert k' (fst ` set r)" by (rule keys_assignProp)
  ultimately show ?case unfolding kv by auto
qed

lemma clockKeys_mergeClocks: "clockKeys (mergeClocks a b) \<subseteq> clockKeys a \<union> clockKeys b"
  using keys_mergeClocksLoop[of a b] by (simp add: clockKeys_def mergeClocks_def)

lemma distinct_mergeClocksLoop:
  "distinct (map fst r) \<Longrightarrow> distinct (map fst (mergeClocksLoop r b))"
  by (induction b arbitrary: r) (auto simp: distinct_assignProp)

lemma map_of_mergeClocks_at:
  assumes a: "wfClock a" and b: "wfClock b" and k: "k \<notin> set objectPrototypeKeys"
  shows "map_of (mergeClocks a b) k =
     (if k \<in> clockKeys a \<union> clockKeys b then Some (Num (max (entry a k) (entry b k))) else None)"
proof -
  from b have db: "distinct (map fst b)" by (simp add: wfClock_def)
  note m = map_of_mergeClocksLoop[OF db k, of a, folded mergeClocks_def]
  show ?thesis
  proof (cases "map_of b k")
    case None
    then have nb: "k \<notin> clockKeys b" by (simp add: map_of_None_clockKeys)
    show ?thesis
    proof (cases "map_of a k")
      case na: None
      then have "k \<notin> clockKeys a" by (simp add: map_of_None_clockKeys)
      with nb m None na show ?thesis by simp
    next
      case (Some av)
      then obtain n where av: "av = Num n" using wfClock_Some[OF a] by blast
      from Some have "k \<in> clockKeys a" using map_of_None_clockKeys[of a k] by auto
      with m None Some av nb show ?thesis by (simp add: entry_Num entry_absent)
    qed
  next
    case (Some bv)
    then obtain n where bv: "bv = Num n" using wfClock_Some[OF b] by blast
    from Some have kb: "k \<in> clockKeys b" using map_of_None_clockKeys[of b k] by auto
    show ?thesis
    proof (cases "map_of a k")
      case None
      then have "k \<notin> clockKeys a" by (simp add: map_of_None_clockKeys)
      with m None Some bv kb show ?thesis by (simp add: entry_Num entry_absent)
    next
      case sa: (Some av)
      then obtain n' where av: "av = Num n'" using wfClock_Some[OF a] by blast
      with m sa Some bv kb show ?thesis by (simp add: entry_Num)
    qed
  qed
qed

text \<open>
  So the two orders of \<open>mergeClocks\<close> agree at every key that names no member of
  \<^verbatim>\<open>Object.prototype\<close>.
\<close>

lemma mergeClocks_commute_at:
  assumes a: "wfClock a" and b: "wfClock b" and k: "k \<notin> set objectPrototypeKeys"
  shows "map_of (mergeClocks a b) k = map_of (mergeClocks b a) k"
  by (simp add: map_of_mergeClocks_at[OF a b k] map_of_mergeClocks_at[OF b a k]
        max.commute Un_commute)

text \<open>On clocks without such keys, at every key.\<close>

lemma map_of_mergeClocks:
  assumes a: "wfClock a" and b: "wfClock b" and sa: "safeKeys a" and sb: "safeKeys b"
  shows "map_of (mergeClocks a b) k =
     (if k \<in> clockKeys a \<union> clockKeys b then Some (Num (max (entry a k) (entry b k))) else None)"
proof (cases "k \<in> set objectPrototypeKeys")
  case False
  then show ?thesis by (rule map_of_mergeClocks_at[OF a b])
next
  case True
  then have n: "k \<notin> clockKeys a \<union> clockKeys b"
    using safeKeys_clockKeys[OF sa] safeKeys_clockKeys[OF sb] by simp
  with clockKeys_mergeClocks[of a b] have "k \<notin> clockKeys (mergeClocks a b)" by blast
  then have "map_of (mergeClocks a b) k = None" by (simp add: map_of_None_clockKeys)
  with n show ?thesis by simp
qed

lemma wfClock_mergeClocks:
  assumes a: "wfClock a" and b: "wfClock b" and sa: "safeKeys a" and sb: "safeKeys b"
  shows "wfClock (mergeClocks a b)"
proof -
  from a have d: "distinct (map fst (mergeClocks a b))"
    by (simp add: wfClock_def mergeClocks_def distinct_mergeClocksLoop)
  have "case snd kv of Num n \<Rightarrow> True | NaN \<Rightarrow> False | Proto n \<Rightarrow> False"
    if "kv \<in> set (mergeClocks a b)" for kv
  proof -
    obtain k v where kv: "kv = (k, v)" by (cases kv)
    with that d have "map_of (mergeClocks a b) k = Some v" by simp
    then show ?thesis using map_of_mergeClocks[OF a b sa sb, of k] kv by (auto split: if_splits)
  qed
  with d show ?thesis by (simp add: wfClock_def list_all_iff)
qed

lemma safeKeys_mergeClocks:
  assumes sa: "safeKeys a" and sb: "safeKeys b"
  shows "safeKeys (mergeClocks a b)"
proof -
  have "fst kv \<notin> set objectPrototypeKeys" if "kv \<in> set (mergeClocks a b)" for kv
  proof
    assume p: "fst kv \<in> set objectPrototypeKeys"
    from that have "fst kv \<in> clockKeys (mergeClocks a b)" by (simp add: clockKeys_def)
    with clockKeys_mergeClocks[of a b] have "fst kv \<in> clockKeys a \<union> clockKeys b" by blast
    with safeKeys_clockKeys[OF sa p] safeKeys_clockKeys[OF sb p] show False by simp
  qed
  then show ?thesis by (simp add: safeKeys_def list_all_iff)
qed

lemma entry_mergeClocks:
  assumes a: "wfClock a" and b: "wfClock b" and sa: "safeKeys a" and sb: "safeKeys b"
  shows "entry (mergeClocks a b) k = max (entry a k) (entry b k)"
proof (cases "k \<in> clockKeys a \<union> clockKeys b")
  case True
  then show ?thesis using map_of_mergeClocks[OF a b sa sb, of k] by (simp add: entry_Num)
next
  case False
  then have "map_of (mergeClocks a b) k = None"
    using map_of_mergeClocks[OF a b sa sb, of k] by simp
  then have "entry (mergeClocks a b) k = 0" by (simp add: entry_def)
  with False show ?thesis by (simp add: entry_absent)
qed

lemma clockKeys_mergeClocks_safe:
  assumes a: "wfClock a" and b: "wfClock b" and sa: "safeKeys a" and sb: "safeKeys b"
  shows "clockKeys (mergeClocks a b) = clockKeys a \<union> clockKeys b"
proof -
  have "k \<in> clockKeys (mergeClocks a b) \<longleftrightarrow> k \<in> clockKeys a \<union> clockKeys b" for k
    using map_of_mergeClocks[OF a b sa sb, of k] map_of_None_clockKeys[of "mergeClocks a b" k]
    by (auto split: if_splits)
  then show ?thesis by blast
qed

lemma mergeClocks_commute:
  assumes a: "wfClock a" and b: "wfClock b" and sa: "safeKeys a" and sb: "safeKeys b"
  shows "map_of (mergeClocks a b) = map_of (mergeClocks b a)"
  by (rule ext)
     (simp add: map_of_mergeClocks[OF a b sa sb] map_of_mergeClocks[OF b a sb sa]
        max.commute Un_commute)

lemma mergeClocks_assoc:
  assumes a: "wfClock a" and b: "wfClock b" and c: "wfClock c"
    and sa: "safeKeys a" and sb: "safeKeys b" and sc: "safeKeys c"
  shows "map_of (mergeClocks (mergeClocks a b) c) = map_of (mergeClocks a (mergeClocks b c))"
  by (rule ext)
     (simp add: map_of_mergeClocks[OF wfClock_mergeClocks[OF a b sa sb] c
                  safeKeys_mergeClocks[OF sa sb] sc]
        map_of_mergeClocks[OF a wfClock_mergeClocks[OF b c sb sc] sa
                  safeKeys_mergeClocks[OF sb sc]]
        entry_mergeClocks[OF a b sa sb] entry_mergeClocks[OF b c sb sc]
        clockKeys_mergeClocks_safe[OF a b sa sb] clockKeys_mergeClocks_safe[OF b c sb sc]
        max.assoc Un_assoc)

lemma mergeClocksLoop_same:
  "\<forall>kv \<in> set b. \<exists>n. snd kv = Num n \<and> map_of r (fst kv) = Some (Num n) \<Longrightarrow>
   mergeClocksLoop r b = r"
proof (induction b)
  case Nil
  then show ?case by simp
next
  case (Cons kv b)
  obtain k v where kv: "kv = (k, v)" by (cases kv)
  from Cons.prems kv obtain n where v: "v = Num n" and m: "map_of r k = Some (Num n)" by auto
  from m have "assignProp k (mathMax (orZero (getProp r k)) v) r = r"
    by (simp add: v getProp_own assignProp_own[OF m] update_triv)
  with Cons kv show ?case by simp
qed

lemma mergeClocks_idem: "wfClock a \<Longrightarrow> mergeClocks a a = a"
proof -
  assume w: "wfClock a"
  have "\<exists>n. snd kv = Num n \<and> map_of a (fst kv) = Some (Num n)" if "kv \<in> set a" for kv
  proof -
    from w that have s: "map_of a (fst kv) = Some (snd kv)" by (cases kv) (simp add: wfClock_def)
    from wfClock_Some[OF w s] obtain n where "snd kv = Num n" ..
    with s show ?thesis by simp
  qed
  then show ?thesis unfolding mergeClocks_def by (intro mergeClocksLoop_same) blast
qed


text \<open>The example of the specification and of the repository's test.\<close>

lemma mergeClocks_example:
  "mergeClocks [(''r1'', Num 1), (''r2'', Num 2)] [(''r2'', Num 3), (''r3'', Num 1)]
     = [(''r1'', Num 1), (''r2'', Num 3), (''r3'', Num 1)]"
  by (simp add: mergeClocks_def getProp_def assignProp_def objectPrototypeKeys_def)


section \<open>Facts about \<open>setInTrie\<close> and \<open>set\<close>\<close>

lemma get_emptyTrie_value: "get p emptyTrie \<noteq> Some (ValueNode v ver l)"
  by (cases p) (simp_all add: emptyTrie_def)

text \<open>
  \<open>setInTrie\<close> throws exactly when a proper prefix of the path ends in a value leaf: the
  walk still has a key to consume and stands on a node that is not a branch.
\<close>

lemma setInTrie_fails_iff:
  "setInTrie path val ver trie = Inl CannotSetPathOnValueNode \<longleftrightarrow>
     (\<exists>p rest v ver' l. path = p @ rest \<and> rest \<noteq> [] \<and> get p trie = Some (ValueNode v ver' l))"
proof (induction path arbitrary: trie)
  case Nil
  then show ?case by simp
next
  case (Cons key path)
  show ?case
  proof (cases trie)
    case (ValueNode v0 ver0 l0)
    have "key # path = [] @ (key # path) \<and> key # path \<noteq> []
          \<and> get [] trie = Some (ValueNode v0 ver0 l0)"
      using ValueNode by simp
    then have "\<exists>p rest v ver' l. key # path = p @ rest \<and> rest \<noteq> []
          \<and> get p trie = Some (ValueNode v ver' l)"
      by blast
    with ValueNode show ?thesis by simp
  next
    case (BranchNode children leaf)
    define child where "child = (case map_of children key of Some c \<Rightarrow> c | None \<Rightarrow> emptyTrie)"
    have L: "setInTrie (key # path) val ver trie = Inl CannotSetPathOnValueNode \<longleftrightarrow>
             setInTrie path val ver child = Inl CannotSetPathOnValueNode"
      unfolding BranchNode child_def by (auto simp: Let_def split: sum.splits error.splits)
    have G: "get (key # p) trie = Some (ValueNode v ver' l)
             \<longleftrightarrow> get p child = Some (ValueNode v ver' l)" for p v ver' l
      unfolding BranchNode child_def by (auto simp: get_emptyTrie_value split: option.splits)
    have R: "(\<exists>p rest v ver' l. key # path = p @ rest \<and> rest \<noteq> []
                \<and> get p trie = Some (ValueNode v ver' l))
          \<longleftrightarrow> (\<exists>p rest v ver' l. path = p @ rest \<and> rest \<noteq> []
                \<and> get p child = Some (ValueNode v ver' l))"
      (is "?A \<longleftrightarrow> ?B")
    proof
      assume ?A
      then obtain p rest v ver' l where h: "key # path = p @ rest" "rest \<noteq> []"
          "get p trie = Some (ValueNode v ver' l)" by blast
      from h(3) BranchNode have "p \<noteq> []" by auto
      then obtain p' where p: "p = key # p'" and pp: "path = p' @ rest"
        using h(1) by (cases p) auto
      from h(3) p have "get p' child = Some (ValueNode v ver' l)" by (simp only: G)
      with pp h(2) show ?B by blast
    next
      assume ?B
      then obtain p rest v ver' l where h: "path = p @ rest" "rest \<noteq> []"
          "get p child = Some (ValueNode v ver' l)" by blast
      from h(3) have "get (key # p) trie = Some (ValueNode v ver' l)" by (simp only: G)
      moreover from h(1) have "key # path = (key # p) @ rest" by simp
      ultimately show ?A using h(2) by blast
    qed
    show ?thesis unfolding L R by (rule Cons.IH)
  qed
qed

text \<open>
  A successful \<open>setInTrie\<close> puts the new leaf at the path and leaves the subtrees under
  the other keys of the root as they were.
\<close>

lemma setInTrie_get:
  "setInTrie path val ver t = Inr t' \<Longrightarrow> get path t' = Some (ValueNode val ver True)"
proof (induction path arbitrary: t t')
  case Nil
  then show ?case by auto
next
  case (Cons key rest)
  show ?case
  proof (cases t)
    case (ValueNode v0 ver0 l0)
    with Cons.prems show ?thesis by simp
  next
    case (BranchNode cs l)
    define child where "child = (case map_of cs key of Some c \<Rightarrow> c | None \<Rightarrow> emptyTrie)"
    from Cons.prems obtain n where n: "setInTrie rest val ver child = Inr n"
      and t': "t' = BranchNode (AList.update key n cs) False"
      unfolding BranchNode child_def by (auto simp: Let_def split: sum.splits)
    from Cons.IH[OF n] show ?thesis unfolding t' by (simp add: update_conv')
  qed
qed

lemma setInTrie_sibling:
  assumes "setInTrie (key # rest) val ver (BranchNode cs l) = Inr t'" and "k \<noteq> key"
  shows "get (k # p) t' = get (k # p) (BranchNode cs l)"
proof -
  from assms(1) obtain n where "t' = BranchNode (AList.update key n cs) False"
    by (auto simp: Let_def split: sum.splits)
  with assms(2) show ?thesis by (simp add: update_conv')
qed

text \<open>
  When the container's clock has a counter below \<open>2^53\<close> for the container's own
  identifier, a successful \<open>set\<close> adds one to it and leaves every other entry, the keys and
  the identifier as they were.
\<close>

lemma set_container_bumps_own_entry:
  assumes ok: "set_container path val c = Inr c'"
    and own: "map_of (version c) (cid c) = Some (Num n)"
    and small: "n < 9007199254740992"
  shows "map_of (version c') (cid c) = Some (Num (n + 1))
       \<and> (\<forall>k. k \<noteq> cid c \<longrightarrow> map_of (version c') k = map_of (version c) k)
       \<and> map fst (version c') = map fst (version c)
       \<and> cid c' = cid c"
proof -
  let ?nv = "AList.update (cid c) (Num (n + 1)) (version c)"
  from own have g: "getProp (version c) (cid c) = Some (Num n)" by (rule getProp_own)
  from ok g small have v: "version c' = ?nv" and i: "cid c' = cid c"
    by (auto simp: set_container_def Let_def split: sum.splits)
  from own have "(cid c, Num n) \<in> set (version c)" by (rule map_of_SomeD)
  then have "cid c \<in> fst ` set (version c)" by force
  then have k: "map fst ?nv = map fst (version c)" by (simp add: update_keys)
  have 1: "map_of ?nv (cid c) = Some (Num (n + 1))" by (simp add: update_conv')
  have 2: "\<forall>k. k \<noteq> cid c \<longrightarrow> map_of ?nv k = map_of (version c) k"
    by (simp add: update_conv')
  from 1 2 k i show ?thesis unfolding v by blast
qed


section \<open>Facts about \<open>removeValue\<close> and \<open>removePath\<close>\<close>

text \<open>
  On any tree: \<open>removeValue\<close> at a path that holds a leaf keeps a leaf there, with no
  payload; \<open>removePath\<close> at a non-empty path that resolves leaves nothing there.
\<close>

lemma removeValue_tombstone:
  "get path t = Some (ValueNode v ver l) \<Longrightarrow>
   get path (removeValue path t) = Some (ValueNode Undefined ver l)"
proof (induction path arbitrary: t)
  case Nil
  then show ?case by simp
next
  case (Cons key rest)
  show ?case
  proof (cases t)
    case (ValueNode v0 ver0 l0)
    with Cons.prems show ?thesis by simp
  next
    case (BranchNode cs l')
    from Cons.prems obtain child where c: "map_of cs key = Some child"
      and g: "get rest child = Some (ValueNode v ver l)"
      unfolding BranchNode by (auto split: option.splits)
    from Cons.IH[OF g] c show ?thesis unfolding BranchNode by (simp add: update_conv')
  qed
qed

lemma get_emptyTrie_Cons: "get (k # p) emptyTrie = None"
  by (simp add: emptyTrie_def)

lemma removePathAux_absent:
  "removePathAux (k # p) t = Some t' \<Longrightarrow> get (k # p) t \<noteq> None \<Longrightarrow> get (k # p) t' = None"
proof (induction p arbitrary: k t t')
  case Nil
  show ?case
  proof (cases t)
    case (ValueNode v0 ver0 l0)
    with Nil.prems(2) show ?thesis by simp
  next
    case (BranchNode cs l)
    from Nil.prems(2) obtain child where c: "map_of cs k = Some child"
      unfolding BranchNode by (auto split: option.splits)
    from Nil.prems(1) c have "t' = BranchNode (AList.delete k cs) l"
      unfolding BranchNode by (simp add: Let_def split: if_splits)
    then show ?thesis by (simp add: delete_conv')
  qed
next
  case (Cons k' p)
  show ?case
  proof (cases t)
    case (ValueNode v0 ver0 l0)
    with Cons.prems(2) show ?thesis by simp
  next
    case (BranchNode cs l)
    from Cons.prems(2) obtain child where c: "map_of cs k = Some child"
      and g: "get (k' # p) child \<noteq> None"
      unfolding BranchNode by (auto split: option.splits)
    show ?thesis
    proof (cases "removePathAux (k' # p) child")
      case None
      with Cons.prems(1) c have "t' = BranchNode (AList.delete k cs) l"
        unfolding BranchNode by (simp add: Let_def split: if_splits)
      then show ?thesis by (simp add: delete_conv')
    next
      case (Some child')
      with Cons.prems(1) c have t': "t' = BranchNode (AList.update k child' cs) l"
        unfolding BranchNode by simp
      from Cons.IH[OF Some g] show ?thesis unfolding t' by (simp add: update_conv')
    qed
  qed
qed

lemma removePath_absent:
  assumes "get (k # p) t \<noteq> None"
  shows "get (k # p) (removePath (k # p) t) = None"
proof (cases "removePathAux (k # p) t")
  case None
  then show ?thesis by (simp add: removePath_def get_emptyTrie_Cons)
next
  case (Some t')
  from removePathAux_absent[OF Some assms] Some show ?thesis by (simp add: removePath_def)
qed


section \<open>The two orders of \<open>mergeTries\<close>\<close>

text \<open>
  The loop over the entries of \<open>b\<close> leaves, under each key, the child of \<open>a\<close>, the child of
  \<open>b\<close>, or the merge of the two.
\<close>

lemma map_of_mergeChildren:
  "distinct (map fst bs) \<Longrightarrow>
   map_of (mergeChildren as bs) k =
     (case map_of bs k of
        None \<Rightarrow> map_of as k
      | Some b \<Rightarrow> Some (case map_of as k of Some a \<Rightarrow> mergeTries a b | None \<Rightarrow> b))"
proof (induction bs arbitrary: as)
  case Nil
  then show ?case by simp
next
  case (Cons kb bs)
  obtain k' b' where kb: "kb = (k', b')" by (cases kb)
  from Cons.prems kb have d: "distinct (map fst bs)" and nk: "k' \<notin> fst ` set bs" by auto
  from nk have none: "map_of bs k' = None" by (simp add: map_of_eq_None_iff)
  let ?as' = "AList.update k'
                (case map_of as k' of Some aChild \<Rightarrow> mergeTries aChild b' | None \<Rightarrow> b') as"
  have step: "mergeChildren as (kb # bs) = mergeChildren ?as' bs" by (simp add: kb)
  show ?case
  proof (cases "k = k'")
    case True
    then show ?thesis unfolding step Cons.IH[OF d] using none by (simp add: kb update_conv')
  next
    case False
    then show ?thesis unfolding step Cons.IH[OF d]
      by (simp add: kb update_conv' split: option.splits)
  qed
qed

lemma found_Cons_Branch:
  "found (k # rest) (BranchNode cs l) =
     (case map_of cs k of None \<Rightarrow> Absent | Some c \<Rightarrow> found rest c)"
  by (cases "map_of cs k") (simp_all add: found_def)

lemma found_Nil_Branch: "found [] (BranchNode cs l) = Inner l"
  by (simp add: found_def)

lemma found_merged:
  assumes db: "distinct (map fst bs)"
  shows "found (k # rest) (BranchNode (mergeChildren as bs) l) =
     (case map_of as k of
        None \<Rightarrow> (case map_of bs k of None \<Rightarrow> Absent | Some b \<Rightarrow> found rest b)
      | Some a \<Rightarrow> (case map_of bs k of None \<Rightarrow> found rest a
                   | Some b \<Rightarrow> found rest (mergeTries a b)))"
  unfolding found_Cons_Branch map_of_mergeChildren[OF db]
  by (cases "map_of as k"; cases "map_of bs k"; simp)

text \<open>
  On the same leaf, and on two leaves with causally ordered versions, both orders return
  the same leaf.
\<close>

lemma mergeTries_leaves_agree:
  assumes "(va = vb \<and> vera = verb \<and> la = lb) \<or> causallyOrdered vera verb"
  shows "mergeTries (ValueNode va vera la) (ValueNode vb verb lb)
       = mergeTries (ValueNode vb verb lb) (ValueNode va vera la)"
  using assms
proof
  assume "va = vb \<and> vera = verb \<and> la = lb"
  then show ?thesis by simp
next
  assume "causallyOrdered vera verb"
  from causallyOrdered_picks_later[OF this] show ?thesis by auto
qed

text \<open>At a path free of conflict both orders find the same thing.\<close>

lemma mergeTries_agree_at:
  "wfTrie a \<Longrightarrow> wfTrie b \<Longrightarrow> conflictFree p a b \<Longrightarrow>
   found p (mergeTries a b) = found p (mergeTries b a)"
proof (induction p arbitrary: a b)
  case Nil
  show ?case
  proof (cases a)
    case a: (ValueNode va vera la)
    show ?thesis
    proof (cases b)
      case b: (ValueNode vb verb lb)
      from Nil.prems(3) have "mergeTries a b = mergeTries b a"
        unfolding a b by (intro mergeTries_leaves_agree) simp
      then show ?thesis by simp
    next
      case b: (BranchNode bs lb)
      from Nil.prems(3) show ?thesis unfolding a b by simp
    qed
  next
    case a: (BranchNode as la)
    show ?thesis
    proof (cases b)
      case b: (ValueNode vb verb lb)
      from Nil.prems(3) show ?thesis unfolding a b by simp
    next
      case b: (BranchNode bs lb)
      show ?thesis unfolding a b by (simp add: found_Nil_Branch)
    qed
  qed
next
  case (Cons k rest)
  show ?case
  proof (cases a)
    case a: (ValueNode va vera la)
    show ?thesis
    proof (cases b)
      case b: (ValueNode vb verb lb)
      show ?thesis unfolding a b by (simp add: found_def)
    next
      case b: (BranchNode bs lb)
      from Cons.prems(3) show ?thesis unfolding a b by simp
    qed
  next
    case a: (BranchNode as la)
    show ?thesis
    proof (cases b)
      case b: (ValueNode vb verb lb)
      from Cons.prems(3) show ?thesis unfolding a b by simp
    next
      case b: (BranchNode bs lb)
      from Cons.prems(1) have da: "distinct (map fst as)" unfolding a by simp
      from Cons.prems(2) have db: "distinct (map fst bs)" unfolding b by simp
      from Cons.prems(1) have wa: "wfTrie (snd kc)" if "kc \<in> set as" for kc
        using that unfolding a by (simp add: list_all_iff)
      from Cons.prems(2) have wb: "wfTrie (snd kc)" if "kc \<in> set bs" for kc
        using that unfolding b by (simp add: list_all_iff)
      have "(case map_of as k of
               None \<Rightarrow> (case map_of bs k of None \<Rightarrow> Absent | Some y \<Rightarrow> found rest y)
             | Some x \<Rightarrow> (case map_of bs k of None \<Rightarrow> found rest x
                          | Some y \<Rightarrow> found rest (mergeTries x y)))
          = (case map_of bs k of
               None \<Rightarrow> (case map_of as k of None \<Rightarrow> Absent | Some x \<Rightarrow> found rest x)
             | Some y \<Rightarrow> (case map_of as k of None \<Rightarrow> found rest y
                          | Some x \<Rightarrow> found rest (mergeTries y x)))"
      proof (cases "map_of as k")
        case None
        then show ?thesis by (cases "map_of bs k") simp_all
      next
        case sx: (Some x)
        show ?thesis
        proof (cases "map_of bs k")
          case None
          with sx show ?thesis by simp
        next
          case sy: (Some y)
          from sx have "(k, x) \<in> set as" by (rule map_of_SomeD)
          from wa[OF this] have wx: "wfTrie x" by simp
          from sy have "(k, y) \<in> set bs" by (rule map_of_SomeD)
          from wb[OF this] have wy: "wfTrie y" by simp
          from Cons.prems(3) have "conflictFree rest x y" unfolding a b by (simp add: sx sy)
          from Cons.IH[OF wx wy this] show ?thesis by (simp add: sx sy)
        qed
      qed
      then show ?thesis unfolding a b mergeTries.simps found_merged[OF db] found_merged[OF da] .
    qed
  qed
qed


text \<open>
  The mixed case through the exported functions: replica \<open>r1\<close> writes 1 at \<open>p/x\<close>, replica
  \<open>r2\<close> writes 2 at \<open>p\<close>; in their merge \<open>p\<close> is the leaf and \<open>p/x\<close> resolves no more.
\<close>

lemma merge_mixed_example:
  "set_container [''p'', ''x''] (Number 1) (createContainer ''r1'')
     = Inr \<lparr> root = BranchNode
                [(''p'', BranchNode [(''x'', ValueNode (Number 1) [(''r1'', Num 1)] True)] False)]
                False,
             cid = ''r1'', version = [(''r1'', Num 1)] \<rparr>
   \<and> set_container [''p''] (Number 2) (createContainer ''r2'')
     = Inr \<lparr> root = BranchNode [(''p'', ValueNode (Number 2) [(''r2'', Num 1)] True)] False,
             cid = ''r2'', version = [(''r2'', Num 1)] \<rparr>
   \<and> root (merge
       \<lparr> root = BranchNode
                [(''p'', BranchNode [(''x'', ValueNode (Number 1) [(''r1'', Num 1)] True)] False)]
                False,
         cid = ''r1'', version = [(''r1'', Num 1)] \<rparr>
       \<lparr> root = BranchNode [(''p'', ValueNode (Number 2) [(''r2'', Num 1)] True)] False,
         cid = ''r2'', version = [(''r2'', Num 1)] \<rparr>)
     = BranchNode [(''p'', ValueNode (Number 2) [(''r2'', Num 1)] True)] False"
  by (simp add: set_container_def createContainer_def emptyTrie_def merge_def getProp_def
        Let_def)

section \<open>The claims\<close>

text \<open>
  \<^bold>\<open>C1\<close> (fails on the code). The claim: \<open>happensBefore a b\<close> holds exactly when every
  entry of \<open>a\<close> is at most that of \<open>b\<close>, one is strictly less, and no entry of \<open>a\<close>, also at a
  key that \<open>b\<close> lacks, exceeds that of \<open>b\<close>. The loop visits the keys of \<open>b\<close> only
  (\<open>happensBefore_iff\<close>), so an entry of \<open>a\<close> at a key missing from \<open>b\<close> is never compared.
  For \<open>a = {x: 1}\<close> and \<open>b = {y: 1}\<close> the code answers \<open>true\<close> although \<open>a\<close> has 1 at \<open>x\<close>
  where \<open>b\<close> has 0, and it answers \<open>true\<close> in the other direction too.
\<close>

theorem happensBefore_ignores_keys_outside_b:
  "happensBefore [(''x'', Num 1)] [(''y'', Num 1)]
   \<and> \<not> specBefore [(''x'', Num 1)] [(''y'', Num 1)]
   \<and> entry [(''x'', Num 1)] ''x'' = 1 \<and> entry [(''y'', Num 1)] ''x'' = 0
   \<and> happensBefore [(''y'', Num 1)] [(''x'', Num 1)]"
  by (simp add: happensBefore_def specBefore_def entry_def getProp_def objectPrototypeKeys_def)

text \<open>
  \<^bold>\<open>C2\<close> (fails as stated). The claim: for containers with distinct identifiers built by
  versioned writes, \<open>merge a b\<close> and \<open>merge b a\<close> have the same root, the same version and
  the same identifier. Let replica \<open>r1\<close> write \<open>'A'\<close> at \<open>k\<close> in its fresh container and
  replica \<open>r2\<close> write \<open>'B'\<close> at \<open>k\<close> in its own. The identifier of a merge is that of its first
  argument, so the two merges carry \<open>r1\<close> and \<open>r2\<close>. The leaves at \<open>k\<close> have the versions
  \<open>{r1: 1}\<close> and \<open>{r2: 1}\<close>, which \<open>happensBefore\<close> orders in both directions, so each merge
  takes the leaf of its second argument: \<open>'B'\<close> in one order, \<open>'A'\<close> in the other. Only the
  version clocks agree, as mappings.
\<close>

theorem merge_not_commutative_counterexample:
  "set_container [''k''] (String ''A'') (createContainer ''r1'')
     = Inr \<lparr> root = BranchNode [(''k'', ValueNode (String ''A'') [(''r1'', Num 1)] True)] False,
             cid = ''r1'', version = [(''r1'', Num 1)] \<rparr>
   \<and> set_container [''k''] (String ''B'') (createContainer ''r2'')
     = Inr \<lparr> root = BranchNode [(''k'', ValueNode (String ''B'') [(''r2'', Num 1)] True)] False,
             cid = ''r2'', version = [(''r2'', Num 1)] \<rparr>
   \<and> merge
       \<lparr> root = BranchNode [(''k'', ValueNode (String ''A'') [(''r1'', Num 1)] True)] False,
         cid = ''r1'', version = [(''r1'', Num 1)] \<rparr>
       \<lparr> root = BranchNode [(''k'', ValueNode (String ''B'') [(''r2'', Num 1)] True)] False,
         cid = ''r2'', version = [(''r2'', Num 1)] \<rparr>
     = \<lparr> root = BranchNode [(''k'', ValueNode (String ''B'') [(''r2'', Num 1)] True)] False,
         cid = ''r1'', version = [(''r1'', Num 1), (''r2'', Num 1)] \<rparr>
   \<and> merge
       \<lparr> root = BranchNode [(''k'', ValueNode (String ''B'') [(''r2'', Num 1)] True)] False,
         cid = ''r2'', version = [(''r2'', Num 1)] \<rparr>
       \<lparr> root = BranchNode [(''k'', ValueNode (String ''A'') [(''r1'', Num 1)] True)] False,
         cid = ''r1'', version = [(''r1'', Num 1)] \<rparr>
     = \<lparr> root = BranchNode [(''k'', ValueNode (String ''A'') [(''r1'', Num 1)] True)] False,
         cid = ''r2'', version = [(''r2'', Num 1), (''r1'', Num 1)] \<rparr>"
  by (simp add: set_container_def createContainer_def emptyTrie_def merge_def happensBefore_def
        mergeClocks_def getProp_def assignProp_def objectPrototypeKeys_def Let_def)

text \<open>
  \<^bold>\<open>C2\<close>, amended. Let \<open>a\<close> and \<open>b\<close> be containers with distinct identifiers whose version
  clocks are clocks of the data model (each replica once, a natural number as counter); their
  trees are any trees (\<open>wfTrie\<close> is what every \<^verbatim>\<open>Map\<close> gives: a key once). Then:
  the identifier of \<open>merge a b\<close> is that of \<open>a\<close> and the identifier of \<open>merge b a\<close> is that of
  \<open>b\<close>; the version clocks of the two merges hold the same counter at every replica whose
  name is not that of a member of \<^verbatim>\<open>Object.prototype\<close>; and at every path that is free of
  conflict between the two trees, the roots of the two merges hold the same thing: the same
  leaf (payload, version and flag), a branch in both, or nothing in both. A path written by
  one replica only is free of conflict, and so is a path where both hold a leaf and one
  version is \<open>Before\<close> the other; nothing is said about a path that ends on two concurrent
  leaves or on which a leaf meets a branch.
\<close>

theorem merge_orders_agree_off_conflicts:
  assumes "cid a \<noteq> cid b"
    and "wfClock (version a)" and "wfClock (version b)"
    and "wfTrie (root a)" and "wfTrie (root b)"
  shows "cid (merge a b) = cid a
       \<and> cid (merge b a) = cid b
       \<and> (\<forall>k. k \<notin> set objectPrototypeKeys \<longrightarrow>
              map_of (version (merge a b)) k = map_of (version (merge b a)) k)
       \<and> (\<forall>p. conflictFree p (root a) (root b) \<longrightarrow>
              found p (root (merge a b)) = found p (root (merge b a)))"
proof -
  from assms(1) have ne: "cid b \<noteq> cid a" by simp
  have v: "\<forall>k. k \<notin> set objectPrototypeKeys \<longrightarrow>
      map_of (mergeClocks (version a) (version b)) k = map_of (mergeClocks (version b) (version a)) k"
    using mergeClocks_commute_at[OF assms(2,3)] by blast
  have r: "\<forall>p. conflictFree p (root a) (root b) \<longrightarrow>
      found p (mergeTries (root a) (root b)) = found p (mergeTries (root b) (root a))"
    using mergeTries_agree_at[OF assms(4,5)] by blast
  from v r show ?thesis using assms(1) ne by (simp add: merge_def)
qed

theorem merge_orders_agree_off_conflicts_witness:
  "(let a = \<lparr> root = BranchNode
                [(''k'', ValueNode (String ''A'') [(''r1'', Num 1)] True),
                 (''x'', ValueNode (Number 1) [(''r1'', Num 1)] True)] False,
             cid = ''r1'', version = [(''r1'', Num 1)] \<rparr>;
        b = \<lparr> root = BranchNode
                [(''y'', ValueNode (Number 2) [(''r2'', Num 1)] True),
                 (''k'', ValueNode (String ''B'') [(''r1'', Num 1), (''r2'', Num 1)] True)] False,
             cid = ''r2'', version = [(''r1'', Num 1), (''r2'', Num 1)] \<rparr>
    in cid a \<noteq> cid b \<and> wfClock (version a) \<and> wfClock (version b)
     \<and> wfTrie (root a) \<and> wfTrie (root b)
     \<and> ''r1'' \<notin> set objectPrototypeKeys
     \<and> conflictFree [''k''] (root a) (root b)
     \<and> conflictFree [''x''] (root a) (root b)
     \<and> cid (merge a b) = cid a
     \<and> cid (merge b a) = cid b
     \<and> map_of (version (merge a b)) ''r1'' = map_of (version (merge b a)) ''r1''
     \<and> found [''k''] (root (merge a b)) = found [''k''] (root (merge b a))
     \<and> found [''x''] (root (merge a b)) = found [''x''] (root (merge b a))
     \<and> found [''k''] (root (merge a b))
         = Leaf (String ''B'') [(''r1'', Num 1), (''r2'', Num 1)] True)"
proof -
  define a where "a = \<lparr> root = BranchNode
                [(''k'', ValueNode (String ''A'') [(''r1'', Num 1)] True),
                 (''x'', ValueNode (Number 1) [(''r1'', Num 1)] True)] False,
             cid = ''r1'', version = [(''r1'', Num 1)] \<rparr>"
  define b where "b = \<lparr> root = BranchNode
                [(''y'', ValueNode (Number 2) [(''r2'', Num 1)] True),
                 (''k'', ValueNode (String ''B'') [(''r1'', Num 1), (''r2'', Num 1)] True)] False,
             cid = ''r2'', version = [(''r1'', Num 1), (''r2'', Num 1)] \<rparr>"
  have 1: "cid a \<noteq> cid b" by (simp add: a_def b_def)
  have 2: "wfClock (version a)" by (simp add: a_def wfClock_def)
  have 3: "wfClock (version b)" by (simp add: b_def wfClock_def)
  have 4: "wfTrie (root a)" by (simp add: a_def)
  have 5: "wfTrie (root b)" by (simp add: b_def)
  have 6: "''r1'' \<notin> set objectPrototypeKeys" by (simp add: objectPrototypeKeys_def)
  have 7: "conflictFree [''k''] (root a) (root b)"
    by (simp add: a_def b_def causallyOrdered_def wfClock_def safeKeys_def
          objectPrototypeKeys_def specBefore_def entry_def)
  have 8: "conflictFree [''x''] (root a) (root b)" by (simp add: a_def b_def)
  have 9: "found [''k''] (root (merge a b))
         = Leaf (String ''B'') [(''r1'', Num 1), (''r2'', Num 1)] True"
    by (simp add: a_def b_def merge_def found_def happensBefore_def getProp_def
          objectPrototypeKeys_def)
  from merge_orders_agree_off_conflicts[OF 1 2 3 4 5] 1 2 3 4 5 6 7 8 9
  show ?thesis unfolding Let_def a_def b_def by blast
qed

text \<open>
  \<^bold>\<open>C3\<close> (fails on the code). The claim: for two value leaves with concurrent clocks the
  merged leaf carries the pointwise maximum of the two versions, and the same value wins in
  either argument order. \<open>mergeTries\<close> has one test, \<^verbatim>\<open>happensBefore(a, b) ? b : a\<close>, so
  for concurrent clocks it returns its first argument as it is. With versions
  \<open>{r1: 2, r2: 1}\<close> and \<open>{r1: 1, r2: 2}\<close>, neither before the other: the result keeps the
  version of the first argument, not the clock-merge \<open>{r1: 2, r2: 2}\<close>, and the winner changes
  with the order of the arguments.
\<close>

theorem mergeTries_concurrent_leaves_keeps_first:
  "\<not> happensBefore [(''r1'', Num 2), (''r2'', Num 1)] [(''r1'', Num 1), (''r2'', Num 2)]
   \<and> \<not> happensBefore [(''r1'', Num 1), (''r2'', Num 2)] [(''r1'', Num 2), (''r2'', Num 1)]
   \<and> mergeTries (ValueNode (String ''A'') [(''r1'', Num 2), (''r2'', Num 1)] True)
                (ValueNode (String ''B'') [(''r1'', Num 1), (''r2'', Num 2)] True)
       = ValueNode (String ''A'') [(''r1'', Num 2), (''r2'', Num 1)] True
   \<and> mergeTries (ValueNode (String ''B'') [(''r1'', Num 1), (''r2'', Num 2)] True)
                (ValueNode (String ''A'') [(''r1'', Num 2), (''r2'', Num 1)] True)
       = ValueNode (String ''B'') [(''r1'', Num 1), (''r2'', Num 2)] True
   \<and> mergeClocks [(''r1'', Num 2), (''r2'', Num 1)] [(''r1'', Num 1), (''r2'', Num 2)]
       = [(''r1'', Num 2), (''r2'', Num 2)]"
  by (simp add: happensBefore_def mergeClocks_def getProp_def assignProp_def
        objectPrototypeKeys_def)

text \<open>
  \<^bold>\<open>C4\<close> (fails on the code). The claim: a sequence stored at a path \<open>p\<close> is decomposed, each
  index \<open>i\<close> retrievable at \<open>p\<close> followed by \<open>i\<close>, and the node at \<open>p\<close> is a branch. \<open>setInTrie\<close>
  puts whatever payload it is given into one value leaf. After
  \<^verbatim>\<open>set(['data'], [1, 2], createContainer('r'))\<close> the node at \<open>data\<close> is a leaf holding the
  whole array, and \<^verbatim>\<open>get(['data', '0'], root)\<close> is \<^verbatim>\<open>undefined\<close>.
\<close>

theorem set_stores_compound_payload_as_one_leaf:
  "set_container [''data''] (Array [Number 1, Number 2]) (createContainer ''r'')
     = Inr \<lparr> root = BranchNode
                [(''data'', ValueNode (Array [Number 1, Number 2]) [(''r'', Num 1)] True)] False,
             cid = ''r'', version = [(''r'', Num 1)] \<rparr>
   \<and> get [''data'', ''0'']
       (BranchNode [(''data'', ValueNode (Array [Number 1, Number 2]) [(''r'', Num 1)] True)] False)
     = None
   \<and> toValue (get [''data'', ''0'']
       (BranchNode [(''data'', ValueNode (Array [Number 1, Number 2]) [(''r'', Num 1)] True)] False))
     = Undefined"
  by (simp add: set_container_def createContainer_def emptyTrie_def toValue_def getProp_def
        Let_def)

text \<open>
  \<^bold>\<open>C5\<close> (fails on the code). The claim: on one leaf and one branch \<open>mergeTries\<close> picks a
  side by a deterministic rule and every path that resolves in exactly one input still
  resolves in the result. The source announces \<^verbatim>\<open>// Mixed types - take the newer one based
  on container version\<close> and then has \<^verbatim>\<open>return b\<close>: no version is looked at, and what only
  the first argument holds is gone. The path \<open>x\<close> resolves in the branch \<open>{x: 1}\<close>, not in
  the leaf \<open>2\<close>, and not in their merge.
\<close>

theorem mergeTries_mixed_drops_first_argument:
  "get [''x''] (BranchNode [(''x'', ValueNode (Number 1) [(''r1'', Num 1)] True)] False)
     = Some (ValueNode (Number 1) [(''r1'', Num 1)] True)
   \<and> get [''x''] (ValueNode (Number 2) [(''r2'', Num 1)] True) = None
   \<and> get [''x'']
       (mergeTries (BranchNode [(''x'', ValueNode (Number 1) [(''r1'', Num 1)] True)] False)
                   (ValueNode (Number 2) [(''r2'', Num 1)] True))
     = None"
  by simp

text \<open>
  \<^bold>\<open>C6\<close> (fails on the code). The claim: a successful \<open>set\<close> returns a container whose
  entry for its own identifier is the old one plus 1, an absent entry counting as 0.
  \<open>set\<close> computes \<^verbatim>\<open>container.version[container.id] + 1\<close> without the \<^verbatim>\<open>|| 0\<close> that
  \<open>happensBefore\<close> and \<open>mergeClocks\<close> apply to a missing counter: for the container
  \<open>{root: empty(), id: 'r', version: {}}\<close> the new entry is \<^verbatim>\<open>NaN\<close>, not 1. When the entry is
  there, and below \<open>2^53\<close> where doubles count exactly, the claim holds
  (\<open>set_container_bumps_own_entry\<close>).
\<close>

theorem set_without_own_entry_gives_NaN:
  "set_container [] (Number 1) \<lparr> root = emptyTrie, cid = ''r'', version = [] \<rparr>
     = Inr \<lparr> root = ValueNode (Number 1) [(''r'', NaN)] True, cid = ''r'',
             version = [(''r'', NaN)] \<rparr>"
  by (simp add: set_container_def getProp_def objectPrototypeKeys_def Let_def)

text \<open>
  \<^bold>\<open>C7\<close>. \<open>set path val c\<close> fails, with the one error the code throws, exactly when the
  path splits into a prefix \<open>p\<close> and a non-empty remainder such that \<open>get p\<close> on the root of
  \<open>c\<close> is a value leaf. A failure is the left summand and carries no container; the
  operations are functions on values, so the tree of \<open>c\<close> is the same after the call.
\<close>

theorem set_fails_iff_path_through_leaf:
  "set_container path val c = Inl CannotSetPathOnValueNode \<longleftrightarrow>
     (\<exists>p rest v ver l. path = p @ rest \<and> rest \<noteq> [] \<and> get p (root c) = Some (ValueNode v ver l))"
proof -
  have "set_container path val c = Inl CannotSetPathOnValueNode \<longleftrightarrow>
        setInTrie path val
          (AList.update (cid c) (plusOne (getProp (version c) (cid c))) (version c)) (root c)
          = Inl CannotSetPathOnValueNode"
    by (auto simp: set_container_def Let_def split: sum.splits error.splits)
  then show ?thesis by (simp only: setInTrie_fails_iff)
qed

text \<open>
  \<^bold>\<open>C8\<close> (fails on the code). The claim: \<open>mergeClocks a b\<close> is the pointwise maximum of
  \<open>a\<close> and \<open>b\<close> over the union of their keys, a missing key counting as 0, and is
  commutative. The loop reads \<^verbatim>\<open>result[nodeId] || 0\<close> on a plain object. For a replica
  named \<^verbatim>\<open>constructor\<close> that \<open>a\<close> does not mention, the read finds the inherited function,
  not \<^verbatim>\<open>undefined\<close>, and \<^verbatim>\<open>Math.max\<close> of it is \<^verbatim>\<open>NaN\<close>:
  \<open>mergeClocks {} {constructor: 1}\<close> is \<open>{constructor: NaN}\<close> where the maximum is 1, and
  the other order gives \<open>{constructor: 1}\<close>. The exported \<open>merge\<close> gets there with two fresh
  containers. On clocks whose keys name no member of \<^verbatim>\<open>Object.prototype\<close> the code does
  what the claim says (\<open>map_of_mergeClocks\<close>, \<open>mergeClocks_commute\<close>, \<open>mergeClocks_assoc\<close>,
  \<open>mergeClocks_idem\<close>, \<open>mergeClocks_example\<close>).
\<close>

theorem mergeClocks_inherited_key_gives_NaN:
  "wfClock [] \<and> wfClock [(''constructor'', Num 1)]
   \<and> mergeClocks [] [(''constructor'', Num 1)] = [(''constructor'', NaN)]
   \<and> mergeClocks [(''constructor'', Num 1)] [] = [(''constructor'', Num 1)]
   \<and> entry [] ''constructor'' = 0 \<and> entry [(''constructor'', Num 1)] ''constructor'' = 1
   \<and> version (merge (createContainer ''r1'') (createContainer ''constructor''))
       = [(''r1'', Num 0), (''constructor'', NaN)]
   \<and> version (merge (createContainer ''constructor'') (createContainer ''r1''))
       = [(''constructor'', Num 0), (''r1'', Num 0)]"
  by (simp add: wfClock_def mergeClocks_def entry_def merge_def createContainer_def getProp_def
        assignProp_def objectPrototypeKeys_def)

text \<open>
  \<^bold>\<open>C9\<close>. Let \<open>t\<close> be the tree with 2 at \<open>a/c\<close> and then 1 at \<open>a/b\<close>, built by
  \<open>setInTrie\<close> from the empty tree under any two versions. After \<open>removeValue\<close> at \<open>a/b\<close>
  the path is still there and \<open>toValue\<close> of its node is \<^verbatim>\<open>undefined\<close>; after \<open>removePath\<close> at
  \<open>a/b\<close> the path is gone; in both trees \<open>a/c\<close> still holds 2.
\<close>

theorem removeValue_keeps_path_removePath_drops_it:
  "setInTrie [''a'', ''c''] (Number 2) v1 emptyTrie
     = Inr (BranchNode [(''a'', BranchNode [(''c'', ValueNode (Number 2) v1 True)] False)] False)
   \<and> setInTrie [''a'', ''b''] (Number 1) v2
       (BranchNode [(''a'', BranchNode [(''c'', ValueNode (Number 2) v1 True)] False)] False)
     = Inr (BranchNode [(''a'', BranchNode [(''c'', ValueNode (Number 2) v1 True),
                                          (''b'', ValueNode (Number 1) v2 True)] False)] False)
   \<and> (let t = BranchNode [(''a'', BranchNode [(''c'', ValueNode (Number 2) v1 True),
                                             (''b'', ValueNode (Number 1) v2 True)] False)] False
      in has [''a'', ''b''] (removeValue [''a'', ''b''] t)
       \<and> toValue (get [''a'', ''b''] (removeValue [''a'', ''b''] t)) = Undefined
       \<and> \<not> has [''a'', ''b''] (removePath [''a'', ''b''] t)
       \<and> toValue (get [''a'', ''c''] (removeValue [''a'', ''b''] t)) = Number 2
       \<and> toValue (get [''a'', ''c''] (removePath [''a'', ''b''] t)) = Number 2)"
  by (simp add: emptyTrie_def has_def toValue_def removePath_def Let_def)

text \<open>
  \<^bold>\<open>C10\<close>. For all containers \<open>a\<close> and \<open>b\<close>, the identifier of \<open>merge a b\<close> is that of \<open>a\<close>:
  on the path for equal identifiers the result is \<open>a\<close> or \<open>b\<close>, which carry the same one, and
  on the other path the result is built with \<^verbatim>\<open>id: a.id\<close>.
\<close>

theorem merge_keeps_first_id: "cid (merge a b) = cid a"
  by (simp add: merge_def)

end
